theory Spec2Isabelle
  imports Main
begin

section \<open>Python values used by the step execution engine\<close>

text \<open>
  A Python \<open>str\<close> is a sequence of Unicode code points, and \<open>len\<close>, \<open>strip\<close>,
  \<open>split\<close> and \<open>replace\<close> all work on code points. A string is therefore modelled
  as a list of code points; \<open>lit\<close> embeds an ASCII literal.
\<close>

type_synonym pystr = "nat list"

definition lit :: "string \<Rightarrow> pystr" where
  "lit s = map of_char s"

text \<open>
  The exceptions that the modelled code raises or lets through. \<open>SystemExit\<close> carries
  the exit status given to \<open>sys.exit\<close>; \<open>OSError\<close> stands for whatever
  \<open>subprocess.run\<close> raises when no child can be started.
\<close>

datatype py_error =
    ValueError string
  | IndexError string
  | OverflowError string
  | UnboundLocalError string
  | ExhaustedListError string
  | OSError string
  | SystemExit int

text \<open>
  What a script has written to standard output, one entry per \<open>print\<close> call.
  \<open>Text s\<close> is the text written (with the line end that \<open>print\<close> appended, if
  any). \<open>Running argv\<close> is the dry-run trace
  \<^verbatim>\<open>print(f'\nRunning: {shlex.split(cmd)}')\<close>, kept as the token list it renders.
\<close>

datatype printed = Text pystr | Running "pystr list"

subsection \<open>Built-in string and list operations\<close>

text \<open>\<open>str.isspace\<close> on one code point: the characters \<open>str.strip()\<close> removes.\<close>

definition py_isspace :: "nat \<Rightarrow> bool" where
  "py_isspace c \<longleftrightarrow>
     (9 \<le> c \<and> c \<le> 13) \<or> (28 \<le> c \<and> c \<le> 32) \<or> c = 133 \<or> c = 160 \<or> c = 5760 \<or>
     (8192 \<le> c \<and> c \<le> 8202) \<or> c = 8232 \<or> c = 8233 \<or> c = 8239 \<or> c = 8287 \<or>
     c = 12288"

text \<open>\<open>s.strip()\<close>: leading and trailing whitespace removed.\<close>

definition py_strip :: "pystr \<Rightarrow> pystr" where
  "py_strip s = rev (dropWhile py_isspace (rev (dropWhile py_isspace s)))"

text \<open>
  \<open>s.split(sep)\<close> for a one-character separator (the source splits on \<open>'\n'\<close>): the
  pieces between separators, empty pieces kept, so the result is never empty.
\<close>

fun py_split :: "nat \<Rightarrow> pystr \<Rightarrow> pystr list" where
  "py_split sep [] = [[]]"
| "py_split sep (c # cs) =
     (let r = py_split sep cs
      in if c = sep then [] # r else (c # hd r) # tl r)"

text \<open>
  \<open>max(xs, key=len)\<close>: the first element of greatest length; \<open>ValueError\<close> on an
  empty list.
\<close>

definition py_max_len :: "pystr list \<Rightarrow> py_error + pystr" where
  "py_max_len xs =
     (case xs of
        [] \<Rightarrow> Inl (ValueError ''max() arg is an empty sequence'')
      | x # rest \<Rightarrow> Inr (foldl (\<lambda>best y. if length best < length y then y else best) x rest))"

text \<open>
  \<open>xs.pop(index)\<close> on a 64-bit CPython: an index that does not fit \<open>ssize_t\<close> is an
  \<open>OverflowError\<close>, a negative index counts from the end, and an index outside the list
  is an \<open>IndexError\<close>. The result is the element and the list without it.
\<close>

definition py_pop :: "'a list \<Rightarrow> int \<Rightarrow> py_error + ('a \<times> 'a list)" where
  "py_pop xs index =
     (if index < - (2 ^ 63) \<or> 2 ^ 63 \<le> index
      then Inl (OverflowError ''Python int too large to convert to C ssize_t'')
      else if xs = [] then Inl (IndexError ''pop from empty list'')
      else
        (let n = int (length xs);
             j = (if index < 0 then index + n else index)
         in if j < 0 \<or> n \<le> j then Inl (IndexError ''pop index out of range'')
            else Inr (xs ! nat j, take (nat j) xs @ drop (Suc (nat j)) xs)))"

text \<open>\<open>str(n)\<close> for an integer: decimal digits, with a minus sign when negative.\<close>

fun digits :: "nat \<Rightarrow> pystr" where
  "digits n = (if n < 10 then [48 + n] else digits (n div 10) @ [48 + n mod 10])"

declare digits.simps [simp del]

definition py_str_int :: "int \<Rightarrow> pystr" where
  "py_str_int i = (if i < 0 then 45 # digits (nat (- i)) else digits (nat i))"

text \<open>\<open>format(s, '.<w')\<close>: \<open>s\<close> left-aligned in width \<open>w\<close>, filled with dots.\<close>

definition ljust_dots :: "nat \<Rightarrow> pystr \<Rightarrow> pystr" where
  "ljust_dots w s = s @ replicate (w - length s) 46"

section \<open>The label queue (library/classes.py, class Labels)\<close>

record Labels =
  labels :: "pystr list"
  pad :: nat

text \<open>
  \<open>Labels.__init__\<close>: one label per non-blank line of the text, trimmed; \<open>pad\<close> is the
  length of the longest label plus 3. The exception of \<open>max\<close> on an empty label list
  is not caught, so no object is built then.
\<close>

definition Labels_init :: "pystr \<Rightarrow> py_error + Labels" where
  "Labels_init s =
     (let ls = filter (\<lambda>t. t \<noteq> []) (map py_strip (py_split 10 s))
      in case py_max_len ls of
           Inl err \<Rightarrow> Inl err
         | Inr m \<Rightarrow> Inr \<lparr>labels = ls, pad = length m + 3\<rparr>)"

definition exhausted :: py_error where
  "exhausted = ExhaustedListError ''Cannot remove label, list of labels is empty.''"

text \<open>
  Every method takes the object and the output written so far, and returns its outcome
  (an exception or the returned value) with the object and the output afterwards.
\<close>

definition "next" :: "Labels \<Rightarrow> printed list \<Rightarrow> (py_error + unit) \<times> Labels \<times> printed list" where
  "next L out =
     (if length (labels L) = 0 then (Inl exhausted, L, out)
      else (case py_pop (labels L) 0 of
              Inl err \<Rightarrow> (Inl err, L, out)
            | Inr (label, rest) \<Rightarrow>
                (Inr (), L\<lparr>labels := rest\<rparr>, out @ [Text (ljust_dots (pad L) label)])))"

definition pop_first :: "Labels \<Rightarrow> printed list \<Rightarrow> (py_error + pystr) \<times> Labels \<times> printed list" where
  "pop_first L out =
     (if length (labels L) = 0 then (Inl exhausted, L, out)
      else (case py_pop (labels L) 0 of
              Inl err \<Rightarrow> (Inl err, L, out)
            | Inr (label, rest) \<Rightarrow> (Inr label, L\<lparr>labels := rest\<rparr>, out)))"

definition pop_last :: "Labels \<Rightarrow> printed list \<Rightarrow> (py_error + pystr) \<times> Labels \<times> printed list" where
  "pop_last L out =
     (if length (labels L) = 0 then (Inl exhausted, L, out)
      else (case py_pop (labels L) (- 1) of
              Inl err \<Rightarrow> (Inl err, L, out)
            | Inr (label, rest) \<Rightarrow> (Inr label, L\<lparr>labels := rest\<rparr>, out)))"

text \<open>
  \<open>pop_item\<close> catches only \<open>IndexError\<close>: it prints the error and the index, then
  \<open>sys.exit(1)\<close>. Any other exception of \<open>pop\<close> passes through.
\<close>

definition pop_item :: "Labels \<Rightarrow> printed list \<Rightarrow> int \<Rightarrow> (py_error + pystr) \<times> Labels \<times> printed list" where
  "pop_item L out index =
     (if length (labels L) = 0 then (Inl exhausted, L, out)
      else (case py_pop (labels L) index of
              Inr (label, rest) \<Rightarrow> (Inr label, L\<lparr>labels := rest\<rparr>, out)
            | Inl (IndexError e) \<Rightarrow>
                (Inl (SystemExit 1), L,
                 out @ [Text (lit e @ lit ''. Attempting to pop index '' @ py_str_int index
                              @ lit ''.'' @ [10]),
                        Text (lit ''Terminating program.'' @ [10])])
            | Inl err \<Rightarrow> (Inl err, L, out)))"

text \<open>\<open>next\<close> called \<open>n\<close> times in a row, stopping at the first exception.\<close>

fun next_times :: "nat \<Rightarrow> Labels \<Rightarrow> printed list \<Rightarrow> (py_error + unit) \<times> Labels \<times> printed list" where
  "next_times 0 L out = (Inr (), L, out)"
| "next_times (Suc n) L out =
     (case next L out of
        (Inl err, L', out') \<Rightarrow> (Inl err, L', out')
      | (Inr _, L', out') \<Rightarrow> next_times n L' out')"

section \<open>The environment context (library/classes.py, class Environment)\<close>

text \<open>
  What \<open>subprocess.run\<close> returns: the argument vector, the exit status and the
  captured streams (\<open>None\<close> when a stream was not captured).
\<close>

record CompletedProcess =
  args :: "pystr list"
  returncode :: int
  stdout :: "pystr option"
  stderr :: "pystr option"

text \<open>
  The attributes of \<open>Environment\<close> that the command runner and the version check
  read or write. The path attributes (\<open>HOME\<close>, \<open>UBUNTU\<close>, ...) are read by the
  scripts only and are left out.
\<close>

record Environment =
  MAJOR :: int
  MINOR :: int
  PASS :: pystr
  FAIL :: pystr
  DEBUG :: bool
  RESULT :: "CompletedProcess option"

definition GREEN :: pystr where
  "GREEN = 27 # lit ''[0;32;49m''"

definition RED :: pystr where
  "RED = 27 # lit ''[0;31;49m''"

definition COLOR_END :: pystr where
  "COLOR_END = 27 # lit ''[0m''"

definition Environment_init :: Environment where
  "Environment_init =
     \<lparr>MAJOR = 3, MINOR = 10,
      PASS = GREEN @ [0x2714] @ COLOR_END,
      FAIL = RED @ [0x2718] @ COLOR_END,
      DEBUG = False,
      RESULT = None\<rparr>"

section \<open>The command runner (library/utilities.py)\<close>

subsection \<open>\<open>shlex.split\<close>\<close>

text \<open>
  \<open>shlex.split(s)\<close> runs the standard library's lexer in POSIX mode with
  \<open>whitespace_split\<close> set and no comment characters. Its \<open>read_token\<close> is a state
  machine over the input: state \<open>' '\<close> (between tokens), \<open>'a'\<close> (inside a word), a
  quote character (inside quotes) and the escape character (after a backslash), with
  the state to return to after an escape kept in \<open>escapedstate\<close>. The function below
  is that machine; it takes the state, \<open>escapedstate\<close>, the \<open>quoted\<close> flag, the token
  read so far and the rest of the input, and returns all remaining tokens. Input that
  ends inside quotes or after a backslash is a \<open>ValueError\<close>.
\<close>

datatype lex_state = Between | InWord | InQuote nat | InEscape

definition shlex_whitespace :: "nat \<Rightarrow> bool" where
  "shlex_whitespace c \<longleftrightarrow> c = 32 \<or> c = 9 \<or> c = 13 \<or> c = 10"

definition shlex_quote :: "nat \<Rightarrow> bool" where
  "shlex_quote c \<longleftrightarrow> c = 39 \<or> c = 34"

text \<open>
  The end of one \<open>read_token\<close> call: an empty unquoted result is \<open>None\<close>, which ends
  the iteration; anything else is a token, followed by the tokens still to come.
\<close>

definition emit :: "bool \<Rightarrow> pystr \<Rightarrow> py_error + pystr list \<Rightarrow> py_error + pystr list" where
  "emit quoted tok rest =
     (if \<not> quoted \<and> tok = [] then Inr []
      else (case rest of Inl err \<Rightarrow> Inl err | Inr toks \<Rightarrow> Inr (tok # toks)))"

fun read_tokens :: "lex_state \<Rightarrow> lex_state \<Rightarrow> bool \<Rightarrow> pystr \<Rightarrow> pystr \<Rightarrow> py_error + pystr list" where
  "read_tokens Between es quoted tok [] = emit quoted tok (Inr [])"
| "read_tokens InWord es quoted tok [] = emit quoted tok (Inr [])"
| "read_tokens (InQuote q) es quoted tok [] = Inl (ValueError ''No closing quotation'')"
| "read_tokens InEscape es quoted tok [] = Inl (ValueError ''No escaped character'')"
| "read_tokens Between es quoted tok (c # cs) =
     (if shlex_whitespace c then
        (if tok \<noteq> [] \<or> quoted then emit quoted tok (read_tokens Between Between False [] cs)
         else read_tokens Between es quoted tok cs)
      else if c = 92 then read_tokens InEscape InWord quoted tok cs
      else if shlex_quote c then read_tokens (InQuote c) es quoted tok cs
      else read_tokens InWord es quoted [c] cs)"
| "read_tokens (InQuote q) es quoted tok (c # cs) =
     (if c = q then read_tokens InWord es True tok cs
      else if c = 92 \<and> q = 34 then read_tokens InEscape (InQuote q) True tok cs
      else read_tokens (InQuote q) es True (tok @ [c]) cs)"
| "read_tokens InEscape es quoted tok (c # cs) =
     (case es of
        InQuote q \<Rightarrow>
          read_tokens es es quoted ((if c \<noteq> 92 \<and> c \<noteq> q then tok @ [92] else tok) @ [c]) cs
      | _ \<Rightarrow> read_tokens es es quoted (tok @ [c]) cs)"
| "read_tokens InWord es quoted tok (c # cs) =
     (if shlex_whitespace c then
        (if tok \<noteq> [] \<or> quoted then emit quoted tok (read_tokens Between Between False [] cs)
         else read_tokens Between es quoted tok cs)
      else if shlex_quote c then read_tokens (InQuote c) es quoted tok cs
      else if c = 92 then read_tokens InEscape InWord quoted tok cs
      else read_tokens InWord es quoted (tok @ [c]) cs)"

definition shlex_split :: "pystr \<Rightarrow> py_error + pystr list" where
  "shlex_split s = read_tokens Between Between False [] s"

subsection \<open>\<open>str.replace\<close>\<close>

text \<open>
  \<open>s.replace(old, new)\<close> with no count: scanning from the left, every occurrence of
  \<open>old\<close> that does not overlap an earlier one is replaced. An empty \<open>old\<close> matches
  before every character and at the end.
\<close>

function py_replace_scan :: "pystr \<Rightarrow> pystr \<Rightarrow> pystr \<Rightarrow> pystr" where
  "py_replace_scan old new [] = []"
| "py_replace_scan old new (c # cs) =
     (if old \<noteq> [] \<and> take (length old) (c # cs) = old
      then new @ py_replace_scan old new (drop (length old) (c # cs))
      else c # py_replace_scan old new cs)"
  by pat_completeness auto
termination
  by (relation "measure (\<lambda>(old, new, s). length s)") auto

definition py_replace :: "pystr \<Rightarrow> pystr \<Rightarrow> pystr \<Rightarrow> pystr" where
  "py_replace s old new =
     (if old = [] then new @ concat (map (\<lambda>c. c # new) s) else py_replace_scan old new s)"

subsection \<open>The host and the state of a run\<close>

text \<open>
  One call of \<open>subprocess.run\<close>: the argument vector and the keyword arguments that
  \<open>run_one_command\<close> passes. An open file is known by its descriptor.
\<close>

type_synonym TextIO = nat

record sp_call =
  argv :: "pystr list"
  capture_output :: bool
  stdin_arg :: "TextIO option"
  stdout_arg :: "TextIO option"

text \<open>
  The host decides what a call of \<open>subprocess.run\<close> does, given the calls made before
  it: it raises (no child ran to completion) or returns the completed process. The
  host is a parameter of the model.
\<close>

type_synonym host = "sp_call list \<Rightarrow> sp_call \<Rightarrow> py_error + CompletedProcess"

text \<open>The effects of a run: the calls of \<open>subprocess.run\<close> so far and what was printed.\<close>

record world =
  sp_calls :: "sp_call list"
  printed_out :: "printed list"

subsection \<open>\<open>run_one_command\<close> and \<open>run_many_arguments\<close>\<close>

definition run_one_command ::
  "host \<Rightarrow> Environment \<Rightarrow> world \<Rightarrow> pystr \<Rightarrow> bool \<Rightarrow> TextIO option \<Rightarrow> TextIO option
     \<Rightarrow> (py_error + pystr) \<times> Environment \<times> world" where
  "run_one_command h e w cmd capture std_in std_out =
     (if DEBUG e then
        (case shlex_split cmd of
           Inl err \<Rightarrow> (Inl err, e, w)
         | Inr toks \<Rightarrow> (Inr (PASS e), e, w\<lparr>printed_out := printed_out w @ [Running toks]\<rparr>))
      else
        (case shlex_split cmd of
           Inl err \<Rightarrow> (Inl err, e, w)
         | Inr toks \<Rightarrow>
             (let call = \<lparr>argv = toks, capture_output = capture,
                          stdin_arg = std_in, stdout_arg = std_out\<rparr>;
                  w' = w\<lparr>sp_calls := sp_calls w @ [call]\<rparr>
              in case h (sp_calls w) call of
                   Inl err \<Rightarrow> (Inl err, e, w')
                 | Inr r \<Rightarrow>
                     (let e' = e\<lparr>RESULT := Some r\<rparr>
                      in if returncode r \<noteq> 0 then (Inr (FAIL e'), e', w')
                         else (Inr (PASS e'), e', w')))))"

text \<open>
  The loop of \<open>run_many_arguments\<close>. The local variable \<open>result\<close> is unbound until the
  first iteration has assigned it, so it is carried as an option; \<open>return result\<close>
  after the loop raises \<open>UnboundLocalError\<close> when it is still unbound.
\<close>

fun run_many_loop ::
  "host \<Rightarrow> Environment \<Rightarrow> world \<Rightarrow> pystr \<Rightarrow> pystr \<Rightarrow> pystr option \<Rightarrow> pystr list
     \<Rightarrow> (py_error + pystr) \<times> Environment \<times> world" where
  "run_many_loop h e w cmd marker result [] =
     (case result of
        None \<Rightarrow>
          (Inl (UnboundLocalError
             ''cannot access local variable 'result' where it is not associated with a value''),
           e, w)
      | Some r \<Rightarrow> (Inr r, e, w))"
| "run_many_loop h e w cmd marker result (target # targets) =
     (case run_one_command h e w (py_replace cmd marker target) True None None of
        (Inl err, e', w') \<Rightarrow> (Inl err, e', w')
      | (Inr r, e', w') \<Rightarrow>
          (if r = FAIL e' then (Inr r, e', w')
           else run_many_loop h e' w' cmd marker (Some r) targets))"

definition run_many_arguments ::
  "host \<Rightarrow> Environment \<Rightarrow> world \<Rightarrow> pystr \<Rightarrow> pystr list \<Rightarrow> pystr
     \<Rightarrow> (py_error + pystr) \<times> Environment \<times> world" where
  "run_many_arguments h e w cmd targets marker = run_many_loop h e w cmd marker None targets"

subsection \<open>Example hosts\<close>

text \<open>
  Two hosts and an initial state, used to evaluate the runner on concrete commands. On the
  first host no program can be started: \<open>subprocess.run\<close> raises \<open>OSError\<close>.
\<close>

definition host_refusing :: host where
  "host_refusing hist call = Inl (OSError ''No such file or directory'')"

text \<open>
  On the second host every program starts and exits with code 0, except the one whose
  argument vector is \<open>bad\<close>, which exits with code 1. Captured streams are empty.
\<close>

definition host_exit_1_on :: "pystr list \<Rightarrow> host" where
  "host_exit_1_on bad hist call =
     Inr \<lparr>args = argv call, returncode = (if argv call = bad then 1 else 0),
          stdout = (if capture_output call then Some [] else None),
          stderr = (if capture_output call then Some [] else None)\<rparr>"

text \<open>Nothing run and nothing printed yet.\<close>

definition world0 :: world where
  "world0 = \<lparr>sp_calls = [], printed_out = []\<rparr>"

subsection \<open>Observing the invocations\<close>

text \<open>
  What an invocation for one target leaves behind. In live mode it is a call of
  \<open>subprocess.run\<close>: \<open>invocation_for cmd marker target call\<close> says that \<open>call\<close> is the call
  \<open>run_many_arguments\<close> makes for \<open>target\<close>, its argument vector being the words of the
  template \<open>cmd\<close> after \<open>cmd.replace(marker, target)\<close>, with the default arguments of
  \<open>run_one_command\<close> (output captured, no redirection).
\<close>

definition invocation_for :: "pystr \<Rightarrow> pystr \<Rightarrow> pystr \<Rightarrow> sp_call \<Rightarrow> bool" where
  "invocation_for cmd marker target call \<longleftrightarrow>
     shlex_split (py_replace cmd marker target) = Inr (argv call)
     \<and> capture_output call \<and> stdin_arg call = None \<and> stdout_arg call = None"

text \<open>In dry-run mode it is the printed trace of the same words.\<close>

definition trace_for :: "pystr \<Rightarrow> pystr \<Rightarrow> pystr \<Rightarrow> printed \<Rightarrow> bool" where
  "trace_for cmd marker target p \<longleftrightarrow>
     (case shlex_split (py_replace cmd marker target) of
        Inr toks \<Rightarrow> p = Running toks
      | Inl err \<Rightarrow> False)"



subsection \<open>\<open>min_python_version\<close>\<close>

text \<open>\<open>sys.version_info\<close>, the version of the running interpreter.\<close>

record version_info =
  major :: int
  minor :: int

definition min_python_version :: "Environment \<Rightarrow> version_info \<Rightarrow> pystr option" where
  "min_python_version e v =
     (let msg = lit ''Minimum required Python version is '' @ py_str_int (MAJOR e)
                @ lit ''.'' @ py_str_int (MINOR e)
      in if major v < MAJOR e \<or> minor v < MINOR e then Some msg else None)"

section \<open>Properties of the label queue\<close>

subsection \<open>Construction\<close>

lemma py_split_ne: "py_split sep s \<noteq> []"
  by (induction s) (auto simp: Let_def)

lemma dropWhile_all: "(\<forall>x\<in>set (dropWhile P l). P x) \<longleftrightarrow> (\<forall>x\<in>set l. P x)"
proof
  assume a: "\<forall>x\<in>set (dropWhile P l). P x"
  have "dropWhile P l = []"
  proof (rule ccontr)
    assume n: "dropWhile P l \<noteq> []"
    then have "\<not> P (hd (dropWhile P l))" by (rule hd_dropWhile)
    moreover have "hd (dropWhile P l) \<in> set (dropWhile P l)" using n by simp
    ultimately show False using a by blast
  qed
  then show "\<forall>x\<in>set l. P x" by (simp add: dropWhile_eq_Nil_conv)
next
  assume "\<forall>x\<in>set l. P x"
  then show "\<forall>x\<in>set (dropWhile P l). P x" using set_dropWhileD by fastforce
qed

lemma py_strip_empty_iff: "py_strip l = [] \<longleftrightarrow> list_all py_isspace l"
  unfolding py_strip_def
  by (simp add: dropWhile_eq_Nil_conv list_all_iff dropWhile_all)

lemma Max_insert_insert:
  "finite A \<Longrightarrow> Max (insert (a::nat) (insert b A)) = Max (insert (max a b) A)"
  by (cases "A = {}") (auto simp: max.assoc)

lemma foldl_max_len:
  "length (foldl (\<lambda>best y. if length best < length y then y else best) x ys) = Max (length ` set (x # ys))"
proof (induction ys arbitrary: x)
  case Nil then show ?case by simp
next
  case (Cons y ys)
  have "Max (insert (length x) (insert (length y) (length ` set ys)))
      = Max (insert (max (length x) (length y)) (length ` set ys))"
    by (rule Max_insert_insert) simp
  then show ?case
    by (simp add: Cons.IH max_def)
qed

lemma py_max_len_Max:
  "xs \<noteq> [] \<Longrightarrow> \<exists>m. py_max_len xs = Inr m \<and> length m = Max (length ` set xs)"
  by (cases xs) (simp_all add: py_max_len_def foldl_max_len del: set_simps)

lemma filter_map_strip:
  "length (filter (\<lambda>t. t \<noteq> []) (map py_strip ls)) = length (filter (\<lambda>l. \<not> list_all py_isspace l) ls)"
  by (induction ls) (simp_all add: py_strip_empty_iff)

lemma Labels_init_scenario:
  "Labels_init (lit ''  Step One \<newline>\<newline>Step Two\<newline>  '')
     = Inr \<lparr>labels = [lit ''Step One'', lit ''Step Two''], pad = 11\<rparr>"
  by (simp add: Labels_init_def lit_def py_strip_def py_isspace_def py_max_len_def)

text \<open>
  Claim C6. A text block with at least one non-blank line yields a queue with one
  label per non-blank line (a line is blank when all its characters are whitespace),
  and a padding width that is the length of the longest label plus 3. The text
  \<open>"  Step One \n\nStep Two\n  "\<close> yields the labels \<open>Step One\<close>, \<open>Step Two\<close> and the
  padding 11.
\<close>

theorem Labels_init_size_and_pad:
  "((\<exists>line \<in> set (py_split 10 s). \<not> list_all py_isspace line) \<longrightarrow>
      (\<exists>q. Labels_init s = Inr q
         \<and> labels q = filter (\<lambda>t. t \<noteq> []) (map py_strip (py_split 10 s))
         \<and> length (labels q) = length (filter (\<lambda>line. \<not> list_all py_isspace line) (py_split 10 s))
         \<and> pad q = Max (length ` set (labels q)) + 3))
   \<and> Labels_init (lit ''  Step One \<newline>\<newline>Step Two\<newline>  '')
       = Inr \<lparr>labels = [lit ''Step One'', lit ''Step Two''], pad = 11\<rparr>"
proof (intro conjI impI)
  assume nb: "\<exists>line \<in> set (py_split 10 s). \<not> list_all py_isspace line"
  define ls where "ls = filter (\<lambda>t. t \<noteq> []) (map py_strip (py_split 10 s))"
  from nb have "ls \<noteq> []"
    by (auto simp: ls_def filter_empty_conv py_strip_empty_iff)
  then obtain m where m: "py_max_len ls = Inr m" "length m = Max (length ` set ls)"
    using py_max_len_Max by blast
  have init: "Labels_init s = Inr \<lparr>labels = ls, pad = length m + 3\<rparr>"
    by (simp add: Labels_init_def ls_def [symmetric] m(1))
  have len: "length ls = length (filter (\<lambda>line. \<not> list_all py_isspace line) (py_split 10 s))"
    unfolding ls_def by (rule filter_map_strip)
  show "\<exists>q. Labels_init s = Inr q
         \<and> labels q = filter (\<lambda>t. t \<noteq> []) (map py_strip (py_split 10 s))
         \<and> length (labels q) = length (filter (\<lambda>line. \<not> list_all py_isspace line) (py_split 10 s))
         \<and> pad q = Max (length ` set (labels q)) + 3"
    using init len m(2) by (simp add: ls_def)
next
  show "Labels_init (lit ''  Step One \<newline>\<newline>Step Two\<newline>  '')
       = Inr \<lparr>labels = [lit ''Step One'', lit ''Step Two''], pad = 11\<rparr>"
    by (rule Labels_init_scenario)
qed

theorem Labels_init_size_and_pad_witness:
  "(\<exists>line \<in> set (py_split 10 (lit ''alpha\<newline>\<newline>  be  '')). \<not> list_all py_isspace line)
   \<and> (\<exists>q. Labels_init (lit ''alpha\<newline>\<newline>  be  '') = Inr q \<and> length (labels q) = 2 \<and> pad q = 8)"
proof -
  have h: "\<exists>line \<in> set (py_split 10 (lit ''alpha\<newline>\<newline>  be  '')). \<not> list_all py_isspace line"
    by (simp add: lit_def py_isspace_def)
  from Labels_init_size_and_pad [of "lit ''alpha\<newline>\<newline>  be  ''"] h
  obtain q where q: "Labels_init (lit ''alpha\<newline>\<newline>  be  '') = Inr q"
    "labels q = filter (\<lambda>t. t \<noteq> []) (map py_strip (py_split 10 (lit ''alpha\<newline>\<newline>  be  '')))"
    "pad q = Max (length ` set (labels q)) + 3"
    by blast
  have "labels q = [lit ''alpha'', lit ''be'']"
    unfolding q(2) by (simp add: lit_def py_strip_def py_isspace_def)
  then have "length (labels q) = 2" "pad q = 8"
    using q(3) by (simp_all add: lit_def)
  with h q(1) show ?thesis by blast
qed

text \<open>
  Claim C8. When every line of the text is blank (the empty text included), the
  label list is empty, \<open>max\<close> raises \<open>ValueError\<close> on it and the constructor fails: no
  queue is built. This \<open>ValueError\<close> is the configuration error of the specification.
\<close>

theorem Labels_init_empty_fails:
  "(\<forall>line \<in> set (py_split 10 s). list_all py_isspace line) \<Longrightarrow>
     Labels_init s = Inl (ValueError ''max() arg is an empty sequence'')"
proof -
  assume a: "\<forall>line \<in> set (py_split 10 s). list_all py_isspace line"
  then have "filter (\<lambda>t. t \<noteq> []) (map py_strip (py_split 10 s)) = []"
    by (auto simp: filter_empty_conv py_strip_empty_iff)
  then show ?thesis
    by (simp add: Labels_init_def py_max_len_def)
qed

theorem Labels_init_empty_fails_witness:
  "list_all (list_all py_isspace) (py_split 10 (lit ''  \<newline> \<newline>''))
   \<and> Labels_init (lit ''  \<newline> \<newline>'') = Inl (ValueError ''max() arg is an empty sequence'')
   \<and> list_all (list_all py_isspace) (py_split 10 [])
   \<and> Labels_init [] = Inl (ValueError ''max() arg is an empty sequence'')"
proof -
  have h: "\<forall>line \<in> set (py_split 10 (lit ''  \<newline> \<newline>'')). list_all py_isspace line"
    by (simp add: lit_def py_isspace_def)
  have h0: "\<forall>line \<in> set (py_split 10 []). list_all py_isspace line"
    by simp
  show ?thesis
    using h h0 Labels_init_empty_fails [OF h] Labels_init_empty_fails [OF h0]
    by (simp add: list_all_iff)
qed

subsection \<open>Consuming labels\<close>

lemma py_pop_first: "py_pop (a # as) 0 = Inr (a, as)"
  by (simp add: py_pop_def Let_def)

lemma next_Cons:
  "labels L = a # as \<Longrightarrow>
     next L out = (Inr (), L\<lparr>labels := as\<rparr>, out @ [Text (ljust_dots (pad L) a)])"
  by (simp add: next_def py_pop_first)

lemma next_Nil: "labels L = [] \<Longrightarrow> next L out = (Inl exhausted, L, out)"
  by (simp add: next_def)

lemma next_times_all:
  "next_times (length (labels L)) L out =
     (Inr (), L\<lparr>labels := []\<rparr>, out @ map (\<lambda>l. Text (ljust_dots (pad L) l)) (labels L))"
proof (induction "labels L" arbitrary: L out)
  case Nil
  then show ?case by simp
next
  case (Cons a as)
  from Cons(2) have l: "labels L = a # as" by simp
  have "as = labels (L\<lparr>labels := as\<rparr>)" by simp
  from Cons(1)[OF this] show ?case
    by (simp add: l next_Cons [OF l])
qed

lemma next_times_one_more:
  "next_times (Suc (length (labels L))) L out =
     (Inl exhausted, L\<lparr>labels := []\<rparr>, out @ map (\<lambda>l. Text (ljust_dots (pad L) l)) (labels L))"
proof (induction "labels L" arbitrary: L out)
  case Nil
  then have "labels L = []" by simp
  then show ?case by (simp add: next_Nil)
next
  case (Cons a as)
  from Cons(2) have l: "labels L = a # as" by simp
  have "as = labels (L\<lparr>labels := as\<rparr>)" by simp
  from Cons(1)[OF this, of "out @ [Text (ljust_dots (pad L) a)]"] show ?case
    using next_Cons [OF l, of out] by (simp add: l)
qed

text \<open>
  Claim C7. On a queue of \<open>N\<close> labels, \<open>N\<close> calls of \<open>next\<close> succeed, print the labels
  in queue order (each left-aligned in the padding width, filled with dots) and leave
  the queue empty; \<open>next\<close> on the emptied queue raises \<open>ExhaustedListError\<close>, so of
  \<open>N + 1\<close> calls in a row the last one fails with it.
\<close>

theorem next_drains_then_exhausted:
  "next_times (length (labels L)) L out =
     (Inr (), L\<lparr>labels := []\<rparr>, out @ map (\<lambda>l. Text (ljust_dots (pad L) l)) (labels L))
   \<and> next (L\<lparr>labels := []\<rparr>) out' = (Inl exhausted, L\<lparr>labels := []\<rparr>, out')
   \<and> next_times (Suc (length (labels L))) L out =
     (Inl exhausted, L\<lparr>labels := []\<rparr>, out @ map (\<lambda>l. Text (ljust_dots (pad L) l)) (labels L))"
  using next_times_all [of L out] next_times_one_more [of L out]
  by (simp add: next_Nil)

subsection \<open>Negative indices\<close>

lemma py_pop_negative:
  assumes "xs \<noteq> []" "index < 0" "- (2 ^ 63) \<le> index" "- index \<le> int (length xs)"
  shows "py_pop xs index =
           Inr (xs ! (length xs - nat (- index)),
                take (length xs - nat (- index)) xs @ drop (Suc (length xs - nat (- index))) xs)"
proof -
  have j: "nat (index + int (length xs)) = length xs - nat (- index)"
    using assms by linarith
  have "\<not> (index + int (length xs) < 0)" "\<not> (int (length xs) \<le> index + int (length xs))"
    using assms by linarith+
  then show ?thesis
    using assms by (simp add: py_pop_def Let_def j)
qed

lemma py_pop_too_negative:
  assumes "xs \<noteq> []" "- (2 ^ 63) \<le> index" "int (length xs) < - index"
  shows "py_pop xs index = Inl (IndexError ''pop index out of range'')"
  using assms by (simp add: py_pop_def Let_def)

lemma py_pop_last: "xs \<noteq> [] \<Longrightarrow> py_pop xs (- 1) = Inr (last xs, butlast xs)"
proof -
  assume ne: "xs \<noteq> []"
  then have l: "1 \<le> int (length xs)" by (cases xs) simp_all
  have "py_pop xs (- 1) = Inr (xs ! (length xs - nat (- (- 1))),
          take (length xs - nat (- (- 1))) xs @ drop (Suc (length xs - nat (- (- 1)))) xs)"
    by (rule py_pop_negative) (use ne l in simp_all)
  moreover have "xs ! (length xs - 1) = last xs" using ne by (simp add: last_conv_nth)
  moreover have "take (length xs - 1) xs = butlast xs" by (simp add: butlast_conv_take)
  moreover have "drop (Suc (length xs - 1)) xs = []" using ne by simp
  ultimately show ?thesis by simp
qed

text \<open>
  Claim C10. On a non-empty queue, \<open>pop_item\<close> with a negative index (one that fits
  the machine index type) succeeds when its absolute value is at most the queue length:
  it removes and returns the label that far from the end. With \<open>- 1\<close> that is the last
  label, as \<open>pop_last\<close> does. A negative index beyond the queue length ends in
  \<open>sys.exit(1)\<close>, the queue unchanged.
\<close>

theorem pop_item_negative_index:
  assumes "labels L \<noteq> []" and "index < 0" and "- (2 ^ 63) \<le> index"
  shows "(if - index \<le> int (length (labels L))
          then pop_item L out index =
                 (Inr (labels L ! (length (labels L) - nat (- index))),
                  L\<lparr>labels := take (length (labels L) - nat (- index)) (labels L)
                                 @ drop (Suc (length (labels L) - nat (- index))) (labels L)\<rparr>,
                  out)
          else fst (pop_item L out index) = Inl (SystemExit 1)
               \<and> fst (snd (pop_item L out index)) = L)
         \<and> pop_item L out (- 1) = (Inr (last (labels L)), L\<lparr>labels := butlast (labels L)\<rparr>, out)
         \<and> pop_item L out (- 1) = pop_last L out"
proof (intro conjI)
  show "if - index \<le> int (length (labels L))
          then pop_item L out index =
                 (Inr (labels L ! (length (labels L) - nat (- index))),
                  L\<lparr>labels := take (length (labels L) - nat (- index)) (labels L)
                                 @ drop (Suc (length (labels L) - nat (- index))) (labels L)\<rparr>,
                  out)
          else fst (pop_item L out index) = Inl (SystemExit 1)
               \<and> fst (snd (pop_item L out index)) = L"
  proof (cases "- index \<le> int (length (labels L))")
    case True
    with py_pop_negative [OF assms(1,2,3)] assms(1) show ?thesis
      by (simp add: pop_item_def)
  next
    case False
    then have "int (length (labels L)) < - index" by simp
    from py_pop_too_negative [OF assms(1,3) this] assms(1) False show ?thesis
      by (simp add: pop_item_def)
  qed
next
  show "pop_item L out (- 1) = (Inr (last (labels L)), L\<lparr>labels := butlast (labels L)\<rparr>, out)"
    using assms(1) by (simp add: pop_item_def py_pop_last)
next
  show "pop_item L out (- 1) = pop_last L out"
    using assms(1) by (simp add: pop_item_def pop_last_def py_pop_last)
qed

theorem pop_item_negative_index_witness:
  "pop_item \<lparr>labels = [lit ''a'', lit ''b'', lit ''c''], pad = 4\<rparr> [] (- 2)
     = (Inr (lit ''b''), \<lparr>labels = [lit ''a'', lit ''c''], pad = 4\<rparr>, [])
   \<and> pop_item \<lparr>labels = [lit ''a'', lit ''b'', lit ''c''], pad = 4\<rparr> [] (- 1)
     = (Inr (lit ''c''), \<lparr>labels = [lit ''a'', lit ''b''], pad = 4\<rparr>, [])
   \<and> fst (pop_item \<lparr>labels = [lit ''a'', lit ''b'', lit ''c''], pad = 4\<rparr> [] (- 4))
     = Inl (SystemExit 1)"
proof -
  let ?L = "\<lparr>labels = [lit ''a'', lit ''b'', lit ''c''], pad = 4\<rparr>"
  have ne: "labels ?L \<noteq> []" by simp
  have a: "(- 2::int) < 0" "- (2 ^ 63) \<le> (- 2::int)" by simp_all
  have b: "(- 4::int) < 0" "- (2 ^ 63) \<le> (- 4::int)" by simp_all
  from pop_item_negative_index [OF ne a, of "[]"] pop_item_negative_index [OF ne b, of "[]"]
  show ?thesis by simp
qed

section \<open>Properties of the command runner\<close>

subsection \<open>One command, live\<close>

lemma PASS_neq_FAIL: "PASS Environment_init \<noteq> FAIL Environment_init"
  by (simp add: Environment_init_def GREEN_def RED_def lit_def)

lemma split_false: "shlex_split (lit ''false'') = Inr [lit ''false'']"
  by (simp add: shlex_split_def lit_def shlex_whitespace_def shlex_quote_def emit_def)

text \<open>
  Claim C1. In live mode (\<open>DEBUG\<close> off), for a command that \<open>shlex.split\<close> tokenizes and
  whose child process the host starts and lets finish with result \<open>r\<close>, \<open>run_one_command\<close>
  returns a verdict and raises nothing; the verdict is \<open>PASS\<close> exactly when the exit code of
  \<open>r\<close> is 0 and \<open>FAIL\<close> exactly when it is not; the whole of \<open>r\<close> is stored in \<open>RESULT\<close>,
  whatever was there before; and exactly that one call of \<open>subprocess.run\<close> is made, with the
  given capture flag and redirections. The two glyphs are assumed distinct, as they are after
  \<open>Environment.__init__\<close>.
\<close>

theorem run_one_command_live:
  assumes "\<not> DEBUG e"
    and "shlex_split cmd = Inr toks"
    and "h (sp_calls w) \<lparr>argv = toks, capture_output = capture,
                          stdin_arg = std_in, stdout_arg = std_out\<rparr> = Inr r"
    and "PASS e \<noteq> FAIL e"
  shows "\<exists>v. run_one_command h e w cmd capture std_in std_out =
           (Inr v, e\<lparr>RESULT := Some r\<rparr>,
            w\<lparr>sp_calls := sp_calls w @ [\<lparr>argv = toks, capture_output = capture,
                                          stdin_arg = std_in, stdout_arg = std_out\<rparr>]\<rparr>)
         \<and> (v = PASS e \<longleftrightarrow> returncode r = 0)
         \<and> (v = FAIL e \<longleftrightarrow> returncode r \<noteq> 0)"
  using assms by (simp add: run_one_command_def Let_def)

theorem run_one_command_live_witness:
  "\<exists>v. run_one_command (host_exit_1_on [lit ''false'']) (Environment_init\<lparr>RESULT := Some \<lparr>args = [], returncode = 0, stdout = None, stderr = None\<rparr>\<rparr>) world0 (lit ''false'') True None None
     = (Inr v,
        Environment_init\<lparr>RESULT := Some \<lparr>args = [lit ''false''], returncode = 1,
                                          stdout = Some [], stderr = Some []\<rparr>\<rparr>,
        world0\<lparr>sp_calls := [\<lparr>argv = [lit ''false''], capture_output = True,
                              stdin_arg = None, stdout_arg = None\<rparr>]\<rparr>)
     \<and> v = FAIL Environment_init \<and> v \<noteq> PASS Environment_init"
proof -
  let ?e = "Environment_init\<lparr>RESULT := Some \<lparr>args = [], returncode = 0, stdout = None, stderr = None\<rparr>\<rparr>"
  let ?call = "\<lparr>argv = [lit ''false''], capture_output = True, stdin_arg = None, stdout_arg = None\<rparr>"
  let ?r = "\<lparr>args = [lit ''false''], returncode = 1, stdout = Some [], stderr = Some []\<rparr>"
  have d: "\<not> DEBUG ?e" by (simp add: Environment_init_def)
  have h: "host_exit_1_on [lit ''false''] (sp_calls world0) ?call = Inr ?r"
    by (simp add: host_exit_1_on_def)
  have p: "PASS ?e \<noteq> FAIL ?e" using PASS_neq_FAIL by simp
  from run_one_command_live
         [where h = "host_exit_1_on [lit ''false'']" and w = world0 and capture = True
            and std_in = None and std_out = None, OF d split_false h p]
  show ?thesis by (simp add: world0_def)
qed

subsection \<open>One command, dry run\<close>

lemma split_rm: "shlex_split (lit ''rm -rf /tmp/x'') = Inr [lit ''rm'', lit ''-rf'', lit ''/tmp/x'']"
  by (simp add: shlex_split_def lit_def shlex_whitespace_def shlex_quote_def emit_def)

text \<open>
  Claim C3, as stated, fails: in dry-run mode the trace line is built from
  \<open>shlex.split(cmd)\<close>, so a command with an unclosed quotation raises \<open>ValueError\<close>
  instead of returning \<open>PASS\<close>.
\<close>

theorem run_one_command_dry_run_malformed:
  "run_one_command host_refusing (Environment_init\<lparr>DEBUG := True\<rparr>) world0 (lit ''echo 'unclosed'') True None None
     = (Inl (ValueError ''No closing quotation''), Environment_init\<lparr>DEBUG := True\<rparr>, world0)"
  by (simp add: run_one_command_def shlex_split_def lit_def shlex_whitespace_def shlex_quote_def emit_def)

text \<open>
  Claim C3, amended. In dry-run mode (\<open>DEBUG\<close> on) a command that \<open>shlex.split\<close> tokenizes
  prints its trace and returns \<open>PASS\<close>; one that does not raises the tokenizer's
  \<open>ValueError\<close> with nothing printed. In both cases no call of \<open>subprocess.run\<close> is made and
  the environment, \<open>RESULT\<close> included, is unchanged.
\<close>

theorem run_one_command_dry_run:
  assumes "DEBUG e"
  shows "(case shlex_split cmd of
            Inr toks \<Rightarrow> run_one_command h e w cmd capture std_in std_out =
                         (Inr (PASS e), e, w\<lparr>printed_out := printed_out w @ [Running toks]\<rparr>)
          | Inl err \<Rightarrow> run_one_command h e w cmd capture std_in std_out = (Inl err, e, w))
         \<and> sp_calls (snd (snd (run_one_command h e w cmd capture std_in std_out))) = sp_calls w
         \<and> fst (snd (run_one_command h e w cmd capture std_in std_out)) = e"
  using assms by (simp add: run_one_command_def split: sum.split)

theorem run_one_command_dry_run_witness:
  "run_one_command host_refusing (Environment_init\<lparr>DEBUG := True\<rparr>) world0 (lit ''rm -rf /tmp/x'') True None None
     = (Inr (PASS Environment_init), Environment_init\<lparr>DEBUG := True\<rparr>,
        world0\<lparr>printed_out := [Running [lit ''rm'', lit ''-rf'', lit ''/tmp/x'']]\<rparr>)"
proof -
  have d: "DEBUG (Environment_init\<lparr>DEBUG := True\<rparr>)" by simp
  from run_one_command_dry_run
         [where cmd = "lit ''rm -rf /tmp/x''" and h = host_refusing and w = world0
            and capture = True and std_in = None and std_out = None, OF d]
  show ?thesis by (simp add: split_rm world0_def)
qed

subsection \<open>The loop over the targets\<close>

text \<open>The four ways a call of \<open>run_one_command\<close> can end.\<close>

lemma run_one_command_cases:
  obtains
    (tok_err) err where "shlex_split c = Inl err"
      "run_one_command h e w c cap si so = (Inl err, e, w)"
  | (dry) toks where "DEBUG e" "shlex_split c = Inr toks"
      "run_one_command h e w c cap si so
         = (Inr (PASS e), e, w\<lparr>printed_out := printed_out w @ [Running toks]\<rparr>)"
  | (host_err) toks err where "\<not> DEBUG e" "shlex_split c = Inr toks"
      "h (sp_calls w) \<lparr>argv = toks, capture_output = cap, stdin_arg = si, stdout_arg = so\<rparr> = Inl err"
      "run_one_command h e w c cap si so
         = (Inl err, e, w\<lparr>sp_calls := sp_calls w @ [\<lparr>argv = toks, capture_output = cap, stdin_arg = si, stdout_arg = so\<rparr>]\<rparr>)"
  | (live) toks r where "\<not> DEBUG e" "shlex_split c = Inr toks"
      "h (sp_calls w) \<lparr>argv = toks, capture_output = cap, stdin_arg = si, stdout_arg = so\<rparr> = Inr r"
      "run_one_command h e w c cap si so
         = (Inr (if returncode r \<noteq> 0 then FAIL e else PASS e), e\<lparr>RESULT := Some r\<rparr>,
            w\<lparr>sp_calls := sp_calls w @ [\<lparr>argv = toks, capture_output = cap, stdin_arg = si, stdout_arg = so\<rparr>]\<rparr>)"
proof (cases "shlex_split c")
  case (Inl err)
  then have "run_one_command h e w c cap si so = (Inl err, e, w)"
    by (simp add: run_one_command_def)
  with Inl show ?thesis by (rule tok_err)
next
  case (Inr toks)
  show ?thesis
  proof (cases "DEBUG e")
    case True
    with Inr have "run_one_command h e w c cap si so
         = (Inr (PASS e), e, w\<lparr>printed_out := printed_out w @ [Running toks]\<rparr>)"
      by (simp add: run_one_command_def)
    with True Inr show ?thesis by (rule dry)
  next
    case False
    let ?call = "\<lparr>argv = toks, capture_output = cap, stdin_arg = si, stdout_arg = so\<rparr>"
    show ?thesis
    proof (cases "h (sp_calls w) ?call")
      case (Inl err)
      with False Inr have "run_one_command h e w c cap si so
         = (Inl err, e, w\<lparr>sp_calls := sp_calls w @ [?call]\<rparr>)"
        by (simp add: run_one_command_def Let_def)
      with False Inr Inl show ?thesis by (rule host_err)
    next
      case (Inr r)
      with False \<open>shlex_split c = Inr toks\<close> have "run_one_command h e w c cap si so
         = (Inr (if returncode r \<noteq> 0 then FAIL e else PASS e), e\<lparr>RESULT := Some r\<rparr>,
            w\<lparr>sp_calls := sp_calls w @ [?call]\<rparr>)"
        by (simp add: run_one_command_def Let_def)
      with False \<open>shlex_split c = Inr toks\<close> Inr show ?thesis by (rule live)
    qed
  qed
qed


text \<open>
  Whatever the outcome, the calls made (live) or the traces printed (dry run) are those of a
  prefix of the targets, in order, each from the unmodified template.
\<close>

lemma run_many_loop_calls:
  assumes "\<not> DEBUG e"
  shows "printed_out (snd (snd (run_many_loop h e w cmd marker res targets))) = printed_out w
       \<and> (\<exists>calls. sp_calls (snd (snd (run_many_loop h e w cmd marker res targets))) = sp_calls w @ calls
            \<and> length calls \<le> length targets
            \<and> list_all2 (invocation_for cmd marker) (take (length calls) targets) calls)"
  using assms
proof (induction targets arbitrary: e w res)
  case Nil
  then show ?case by (simp split: option.split)
next
  case (Cons t ts)
  let ?call = "\<lambda>toks. \<lparr>argv = toks, capture_output = True, stdin_arg = None, stdout_arg = None\<rparr>"
  show ?case
  proof (cases rule: run_one_command_cases
      [where c = "py_replace cmd marker t" and h = h and e = e and w = w
         and cap = True and si = None and so = None])
    case (tok_err err)
    then show ?thesis by simp
  next
    case (dry toks)
    with Cons.prems show ?thesis by simp
  next
    case (host_err toks err)
    have "invocation_for cmd marker t (?call toks)"
      using host_err(2) by (simp add: invocation_for_def)
    with host_err(4) show ?thesis
      by (auto intro!: exI [of _ "[?call toks]"])
  next
    case (live toks r)
    have inv: "invocation_for cmd marker t (?call toks)"
      using live(2) by (simp add: invocation_for_def)
    let ?e1 = "e\<lparr>RESULT := Some r\<rparr>"
    let ?w1 = "w\<lparr>sp_calls := sp_calls w @ [?call toks]\<rparr>"
    show ?thesis
    proof (cases "(if returncode r \<noteq> 0 then FAIL e else PASS e) = FAIL e")
      case True
      with live(4) inv show ?thesis
        by (auto intro!: exI [of _ "[?call toks]"])
    next
      case False
      let ?v = "if returncode r \<noteq> 0 then FAIL e else PASS e"
      from False live(4)
      have step: "run_many_loop h e w cmd marker res (t # ts)
                  = run_many_loop h ?e1 ?w1 cmd marker (Some ?v) ts"
        by simp
      have "\<not> DEBUG ?e1" using Cons.prems by simp
      from Cons.IH [OF this, of ?w1 "Some ?v"]
      obtain calls where ih:
        "printed_out (snd (snd (run_many_loop h ?e1 ?w1 cmd marker (Some ?v) ts))) = printed_out ?w1"
        "sp_calls (snd (snd (run_many_loop h ?e1 ?w1 cmd marker (Some ?v) ts))) = sp_calls ?w1 @ calls"
        "length calls \<le> length ts"
        "list_all2 (invocation_for cmd marker) (take (length calls) ts) calls"
        by blast
      from ih inv show ?thesis
        unfolding step by (auto intro!: exI [of _ "?call toks # calls"])
    qed
  qed
qed

lemma run_many_loop_traces:
  assumes "DEBUG e"
  shows "sp_calls (snd (snd (run_many_loop h e w cmd marker res targets))) = sp_calls w
       \<and> (\<exists>ps. printed_out (snd (snd (run_many_loop h e w cmd marker res targets))) = printed_out w @ ps
            \<and> length ps \<le> length targets
            \<and> list_all2 (trace_for cmd marker) (take (length ps) targets) ps)"
  using assms
proof (induction targets arbitrary: w res)
  case Nil
  then show ?case by (simp split: option.split)
next
  case (Cons t ts)
  show ?case
  proof (cases rule: run_one_command_cases
      [where c = "py_replace cmd marker t" and h = h and e = e and w = w
         and cap = True and si = None and so = None])
    case (tok_err err)
    then show ?thesis by simp
  next
    case (dry toks)
    have tr: "trace_for cmd marker t (Running toks)"
      using dry(2) by (simp add: trace_for_def)
    let ?w1 = "w\<lparr>printed_out := printed_out w @ [Running toks]\<rparr>"
    show ?thesis
    proof (cases "PASS e = FAIL e")
      case True
      with dry(3) tr show ?thesis
        by (auto intro!: exI [of _ "[Running toks]"])
    next
      case False
      with dry(3)
      have step: "run_many_loop h e w cmd marker res (t # ts)
                  = run_many_loop h e ?w1 cmd marker (Some (PASS e)) ts"
        by simp
      from Cons.IH [OF Cons.prems, of ?w1 "Some (PASS e)"]
      obtain ps where ih:
        "sp_calls (snd (snd (run_many_loop h e ?w1 cmd marker (Some (PASS e)) ts))) = sp_calls ?w1"
        "printed_out (snd (snd (run_many_loop h e ?w1 cmd marker (Some (PASS e)) ts))) = printed_out ?w1 @ ps"
        "length ps \<le> length ts"
        "list_all2 (trace_for cmd marker) (take (length ps) ts) ps"
        by blast
      from ih tr show ?thesis
        unfolding step by (auto intro!: exI [of _ "Running toks # ps"])
    qed
  next
    case (host_err toks err)
    with Cons.prems show ?thesis by simp
  next
    case (live toks r)
    with Cons.prems show ?thesis by simp
  qed
qed














subsection \<open>Substitution of the marker\<close>

lemma py_replace_scan_first:
  assumes "old \<noteq> []"
    and "\<forall>i<length pre. take (length old) (drop i (pre @ old @ post)) \<noteq> old"
  shows "py_replace_scan old new (pre @ old @ post) = pre @ new @ py_replace_scan old new post"
  using assms(2)
proof (induction pre)
  case Nil
  obtain c cs where oc: "old = c # cs"
    using assms(1) by (cases old) auto
  have "py_replace_scan (c # cs) new (c # (cs @ post)) = new @ py_replace_scan (c # cs) new post"
    by simp
  then show ?case by (simp add: oc)
next
  case (Cons p ps)
  from Cons.prems have here: "take (length old) ((p # ps) @ old @ post) \<noteq> old"
    by (metis drop0 length_greater_0_conv list.distinct(1))
  have later: "\<forall>i<length ps. take (length old) (drop i (ps @ old @ post)) \<noteq> old"
  proof (intro allI impI)
    fix i assume "i < length ps"
    then have "Suc i < length (p # ps)" by simp
    with Cons.prems have "take (length old) (drop (Suc i) ((p # ps) @ old @ post)) \<noteq> old"
      by blast
    then show "take (length old) (drop i (ps @ old @ post)) \<noteq> old" by simp
  qed
  have "py_replace_scan old new ((p # ps) @ old @ post)
          = p # py_replace_scan old new (ps @ old @ post)"
    using here by simp
  with Cons.IH [OF later] show ?case by simp
qed

lemma py_replace_scan_absent:
  assumes "\<forall>i<length s. take (length old) (drop i s) \<noteq> old"
  shows "py_replace_scan old new s = s"
  using assms
proof (induction s)
  case Nil
  then show ?case by simp
next
  case (Cons c cs)
  from Cons.prems have here: "take (length old) (c # cs) \<noteq> old"
    by (metis drop0 length_greater_0_conv list.distinct(1))
  have later: "\<forall>i<length cs. take (length old) (drop i cs) \<noteq> old"
  proof (intro allI impI)
    fix i assume "i < length cs"
    then have "Suc i < length (c # cs)" by simp
    with Cons.prems have "take (length old) (drop (Suc i) (c # cs)) \<noteq> old" by blast
    then show "take (length old) (drop i cs) \<noteq> old" by simp
  qed
  from here Cons.IH [OF later] show ?case by simp
qed

lemma run_many_arguments_single:
  "run_many_arguments h e w cmd [target] marker
     = run_one_command h e w (py_replace cmd marker target) True None None"
proof -
  obtain out e1 w1 where r: "run_one_command h e w (py_replace cmd marker target) True None None = (out, e1, w1)"
    by (metis prod_cases3)
  show ?thesis
    by (cases out) (simp_all add: run_many_arguments_def r)
qed

lemma replace_cp: "py_replace (lit ''cp TARGET TARGET.bak'') (lit ''TARGET'') (lit ''f'') = lit ''cp f f.bak''"
  by (simp add: py_replace_def lit_def)

lemma split_cp: "shlex_split (lit ''cp f f.bak'') = Inr [lit ''cp'', lit ''f'', lit ''f.bak'']"
  by (simp add: shlex_split_def lit_def shlex_whitespace_def shlex_quote_def emit_def)

text \<open>
  Claim C4, as stated, fails: \<open>cmd.replace(marker, target)\<close> replaces every occurrence of the
  marker, so a template with two markers is run with both replaced.
\<close>

theorem run_many_replaces_second_occurrence:
  "map argv (sp_calls (snd (snd (run_many_arguments (host_exit_1_on []) Environment_init world0
       (lit ''cp TARGET TARGET.bak'') [lit ''f''] (lit ''TARGET'')))))
     = [[lit ''cp'', lit ''f'', lit ''f.bak'']]
   \<and> map argv (sp_calls (snd (snd (run_many_arguments (host_exit_1_on []) Environment_init world0
       (lit ''cp TARGET TARGET.bak'') [lit ''f''] (lit ''TARGET'')))))
     \<noteq> [[lit ''cp'', lit ''f'', lit ''TARGET.bak'']]"
proof -
  have "run_one_command (host_exit_1_on []) Environment_init world0 (lit ''cp f f.bak'') True None None
      = (Inr (PASS Environment_init),
         Environment_init\<lparr>RESULT := Some \<lparr>args = [lit ''cp'', lit ''f'', lit ''f.bak''], returncode = 0,
                                           stdout = Some [], stderr = Some []\<rparr>\<rparr>,
         world0\<lparr>sp_calls := [\<lparr>argv = [lit ''cp'', lit ''f'', lit ''f.bak''], capture_output = True,
                               stdin_arg = None, stdout_arg = None\<rparr>]\<rparr>)"
    by (simp add: run_one_command_def split_cp Let_def host_exit_1_on_def world0_def Environment_init_def)
  then have "map argv (sp_calls (snd (snd (run_many_arguments (host_exit_1_on []) Environment_init world0
       (lit ''cp TARGET TARGET.bak'') [lit ''f''] (lit ''TARGET'')))))
     = [[lit ''cp'', lit ''f'', lit ''f.bak'']]"
    by (simp add: run_many_arguments_single replace_cp)
  moreover have "lit ''f.bak'' \<noteq> lit ''TARGET.bak''" by (simp add: lit_def)
  ultimately show ?thesis by simp
qed

lemma run_many_arguments_Cons:
  "run_many_arguments h e w cmd (t # ts) marker
     = (case run_one_command h e w (py_replace cmd marker t) True None None of
          (Inl err, e', w') \<Rightarrow> (Inl err, e', w')
        | (Inr r, e', w') \<Rightarrow>
            (if r = FAIL e' \<or> ts = [] then (Inr r, e', w')
             else run_many_arguments h e' w' cmd ts marker))"
proof -
  obtain out e1 w1 where r: "run_one_command h e w (py_replace cmd marker t) True None None = (out, e1, w1)"
    by (metis prod_cases3)
  show ?thesis
  proof (cases out)
    case (Inl err)
    with r show ?thesis by (simp add: run_many_arguments_def)
  next
    case (Inr v)
    with r show ?thesis
      by (cases ts) (simp_all add: run_many_arguments_def)
  qed
qed

lemma replace_cp_a: "py_replace (lit ''cp TARGET TARGET.bak'') (lit ''TARGET'') (lit ''a'') = lit ''cp a a.bak''"
  by (simp add: py_replace_def lit_def)

lemma replace_cp_b: "py_replace (lit ''cp TARGET TARGET.bak'') (lit ''TARGET'') (lit ''b'') = lit ''cp b b.bak''"
  by (simp add: py_replace_def lit_def)

lemma split_cp_a: "shlex_split (lit ''cp a a.bak'') = Inr [lit ''cp'', lit ''a'', lit ''a.bak'']"
  by (simp add: shlex_split_def lit_def shlex_whitespace_def shlex_quote_def emit_def)

lemma split_cp_b: "shlex_split (lit ''cp b b.bak'') = Inr [lit ''cp'', lit ''b'', lit ''b.bak'']"
  by (simp add: shlex_split_def lit_def shlex_whitespace_def shlex_quote_def emit_def)

lemma run_cp_a_b:
  "sp_calls (snd (snd (run_many_arguments (host_exit_1_on []) Environment_init world0
       (lit ''cp TARGET TARGET.bak'') [lit ''a'', lit ''b''] (lit ''TARGET''))))
   = [\<lparr>argv = [lit ''cp'', lit ''a'', lit ''a.bak''], capture_output = True,
        stdin_arg = None, stdout_arg = None\<rparr>,
      \<lparr>argv = [lit ''cp'', lit ''b'', lit ''b.bak''], capture_output = True,
        stdin_arg = None, stdout_arg = None\<rparr>]"
proof -
  have p: "PASS Environment_init \<noteq> FAIL Environment_init" by (rule PASS_neq_FAIL)
  have d: "\<not> DEBUG Environment_init" by (simp add: Environment_init_def)
  show ?thesis
    using p d
    by (simp add: run_many_arguments_def replace_cp_a replace_cp_b run_one_command_def
        split_cp_a split_cp_b Let_def host_exit_1_on_def world0_def)
qed

text \<open>
  Claim C4, amended. For a non-empty marker and every list of targets:

  \<^item> the invocation for the first target is \<open>run_one_command\<close> on the template with the
    marker replaced by that target, and unless it raises, fails or was the last, the remaining
    targets are run from the same, unmodified template;

  \<^item> every call made (live) and every trace printed (dry run) is the one for the target at the
    same position in the list: the words of the template after \<open>cmd.replace(marker, target)\<close>;

  \<^item> that replacement rewrites the leftmost occurrence of the marker and then, in the same
    way, the rest of the template after it, so every non-overlapping occurrence, scanning
    from the left, is replaced; a part without the marker is left as it is.
\<close>

theorem run_many_substitutes_every_occurrence:
  assumes "marker \<noteq> []"
  shows "(\<forall>t ts. run_many_arguments h e w cmd (t # ts) marker
            = (case run_one_command h e w (py_replace cmd marker t) True None None of
                 (Inl err, e', w') \<Rightarrow> (Inl err, e', w')
               | (Inr r, e', w') \<Rightarrow>
                   (if r = FAIL e' \<or> ts = [] then (Inr r, e', w')
                    else run_many_arguments h e' w' cmd ts marker)))
       \<and> (\<exists>calls ps.
            sp_calls (snd (snd (run_many_arguments h e w cmd targets marker))) = sp_calls w @ calls
          \<and> printed_out (snd (snd (run_many_arguments h e w cmd targets marker))) = printed_out w @ ps
          \<and> length calls \<le> length targets \<and> length ps \<le> length targets
          \<and> list_all2 (invocation_for cmd marker) (take (length calls) targets) calls
          \<and> list_all2 (trace_for cmd marker) (take (length ps) targets) ps)
       \<and> (\<forall>pre post target.
            (\<forall>i<length pre. take (length marker) (drop i (pre @ marker @ post)) \<noteq> marker)
            \<longrightarrow> py_replace (pre @ marker @ post) marker target
                  = pre @ target @ py_replace post marker target)
       \<and> (\<forall>s target.
            (\<forall>i<length s. take (length marker) (drop i s) \<noteq> marker)
            \<longrightarrow> py_replace s marker target = s)"
proof -
  have a: "\<exists>calls ps.
            sp_calls (snd (snd (run_many_arguments h e w cmd targets marker))) = sp_calls w @ calls
          \<and> printed_out (snd (snd (run_many_arguments h e w cmd targets marker))) = printed_out w @ ps
          \<and> length calls \<le> length targets \<and> length ps \<le> length targets
          \<and> list_all2 (invocation_for cmd marker) (take (length calls) targets) calls
          \<and> list_all2 (trace_for cmd marker) (take (length ps) targets) ps"
  proof (cases "DEBUG e")
    case True
    from run_many_loop_traces [OF True, of h w cmd marker None targets]
    obtain ps where
      "sp_calls (snd (snd (run_many_arguments h e w cmd targets marker))) = sp_calls w"
      "printed_out (snd (snd (run_many_arguments h e w cmd targets marker))) = printed_out w @ ps"
      "length ps \<le> length targets"
      "list_all2 (trace_for cmd marker) (take (length ps) targets) ps"
      unfolding run_many_arguments_def by blast
    then show ?thesis
      by (intro exI [of _ "[]"] exI [of _ ps]) simp
  next
    case False
    from run_many_loop_calls [OF False, of h w cmd marker None targets]
    obtain calls where
      "printed_out (snd (snd (run_many_arguments h e w cmd targets marker))) = printed_out w"
      "sp_calls (snd (snd (run_many_arguments h e w cmd targets marker))) = sp_calls w @ calls"
      "length calls \<le> length targets"
      "list_all2 (invocation_for cmd marker) (take (length calls) targets) calls"
      unfolding run_many_arguments_def by blast
    then show ?thesis
      by (intro exI [of _ calls] exI [of _ "[]"]) simp
  qed
  have b: "\<forall>pre post target.
            (\<forall>i<length pre. take (length marker) (drop i (pre @ marker @ post)) \<noteq> marker)
            \<longrightarrow> py_replace (pre @ marker @ post) marker target
                  = pre @ target @ py_replace post marker target"
    using py_replace_scan_first [OF assms] assms by (simp add: py_replace_def)
  have c: "\<forall>s target.
            (\<forall>i<length s. take (length marker) (drop i s) \<noteq> marker)
            \<longrightarrow> py_replace s marker target = s"
    using assms by (simp add: py_replace_def py_replace_scan_absent)
  have u: "\<forall>t ts. run_many_arguments h e w cmd (t # ts) marker
            = (case run_one_command h e w (py_replace cmd marker t) True None None of
                 (Inl err, e', w') \<Rightarrow> (Inl err, e', w')
               | (Inr r, e', w') \<Rightarrow>
                   (if r = FAIL e' \<or> ts = [] then (Inr r, e', w')
                    else run_many_arguments h e' w' cmd ts marker))"
    by (intro allI run_many_arguments_Cons)
  from u a b c show ?thesis by (intro conjI)
qed

theorem run_many_substitutes_every_occurrence_witness:
  "(\<exists>c1 c2. sp_calls (snd (snd (run_many_arguments (host_exit_1_on []) Environment_init world0
        (lit ''cp TARGET TARGET.bak'') [lit ''a'', lit ''b''] (lit ''TARGET'')))) = [c1, c2]
      \<and> invocation_for (lit ''cp TARGET TARGET.bak'') (lit ''TARGET'') (lit ''a'') c1
      \<and> invocation_for (lit ''cp TARGET TARGET.bak'') (lit ''TARGET'') (lit ''b'') c2
      \<and> argv c1 = [lit ''cp'', lit ''a'', lit ''a.bak'']
      \<and> argv c2 = [lit ''cp'', lit ''b'', lit ''b.bak''])
   \<and> py_replace (lit ''cp TARGET TARGET.bak'') (lit ''TARGET'') (lit ''a'') = lit ''cp a a.bak''"
proof -
  let ?cmd = "lit ''cp TARGET TARGET.bak''"
  let ?m = "lit ''TARGET''"
  have m: "?m \<noteq> []" by (simp add: lit_def)
  note T = run_many_substitutes_every_occurrence
             [OF m, of "host_exit_1_on []" Environment_init world0 ?cmd "[lit ''a'', lit ''b'']"]
  from T obtain calls where
    c: "sp_calls (snd (snd (run_many_arguments (host_exit_1_on []) Environment_init world0
          ?cmd [lit ''a'', lit ''b''] ?m))) = sp_calls world0 @ calls"
       "list_all2 (invocation_for ?cmd ?m) (take (length calls) [lit ''a'', lit ''b'']) calls"
    by blast
  from c(1) have calls: "calls =
     [\<lparr>argv = [lit ''cp'', lit ''a'', lit ''a.bak''], capture_output = True,
        stdin_arg = None, stdout_arg = None\<rparr>,
      \<lparr>argv = [lit ''cp'', lit ''b'', lit ''b.bak''], capture_output = True,
        stdin_arg = None, stdout_arg = None\<rparr>]"
    unfolding run_cp_a_b by (simp add: world0_def)
  from c(2) have inv:
    "invocation_for ?cmd ?m (lit ''a'') \<lparr>argv = [lit ''cp'', lit ''a'', lit ''a.bak''], capture_output = True,
        stdin_arg = None, stdout_arg = None\<rparr>"
    "invocation_for ?cmd ?m (lit ''b'') \<lparr>argv = [lit ''cp'', lit ''b'', lit ''b.bak''], capture_output = True,
        stdin_arg = None, stdout_arg = None\<rparr>"
    unfolding calls by simp_all
  have first: "\<exists>c1 c2. sp_calls (snd (snd (run_many_arguments (host_exit_1_on []) Environment_init world0
        ?cmd [lit ''a'', lit ''b''] ?m))) = [c1, c2]
      \<and> invocation_for ?cmd ?m (lit ''a'') c1
      \<and> invocation_for ?cmd ?m (lit ''b'') c2
      \<and> argv c1 = [lit ''cp'', lit ''a'', lit ''a.bak'']
      \<and> argv c2 = [lit ''cp'', lit ''b'', lit ''b.bak'']"
    using inv by (simp add: run_cp_a_b)
  from T have C: "\<And>pre post target.
       (\<forall>i<length pre. take (length ?m) (drop i (pre @ ?m @ post)) \<noteq> ?m)
       \<Longrightarrow> py_replace (pre @ ?m @ post) ?m target = pre @ target @ py_replace post ?m target"
    and D: "\<And>s target. (\<forall>i<length s. take (length ?m) (drop i s) \<noteq> ?m)
       \<Longrightarrow> py_replace s ?m target = s"
    by blast+
  have n: "\<forall>i<length (lit ''cp ''). take (length ?m)
             (drop i (lit ''cp '' @ ?m @ lit '' TARGET.bak'')) \<noteq> ?m"
    by (simp add: lit_def less_Suc_eq numeral_3_eq_3)
  have n1: "\<forall>i<length (lit '' ''). take (length ?m)
             (drop i (lit '' '' @ ?m @ lit ''.bak'')) \<noteq> ?m"
    by (simp add: lit_def)
  have n2: "\<forall>i<length (lit ''.bak''). take (length ?m) (drop i (lit ''.bak'')) \<noteq> ?m"
    by (simp add: lit_def less_Suc_eq numeral_eq_Suc)
  have e1: "?cmd = lit ''cp '' @ ?m @ lit '' TARGET.bak''"
    and e2: "lit '' TARGET.bak'' = lit '' '' @ ?m @ lit ''.bak''"
    and e3: "lit ''cp a a.bak'' = lit ''cp '' @ lit ''a'' @ lit '' '' @ lit ''a'' @ lit ''.bak''"
    by (simp_all add: lit_def)
  have "py_replace (lit ''cp '' @ ?m @ lit '' TARGET.bak'') ?m (lit ''a'')
        = lit ''cp '' @ lit ''a'' @ py_replace (lit '' TARGET.bak'') ?m (lit ''a'')"
    by (rule C [OF n])
  also have "py_replace (lit '' TARGET.bak'') ?m (lit ''a'')
        = lit '' '' @ lit ''a'' @ py_replace (lit ''.bak'') ?m (lit ''a'')"
    unfolding e2 by (rule C [OF n1])
  also have "py_replace (lit ''.bak'') ?m (lit ''a'') = lit ''.bak''"
    by (rule D [OF n2])
  finally have second: "py_replace ?cmd ?m (lit ''a'') = lit ''cp a a.bak''"
    unfolding e1 [symmetric] e3 .
  from first second show ?thesis by blast
qed

subsection \<open>An empty list of targets\<close>

text \<open>
  Claim C5. With an empty list of targets the loop body never runs, the local variable
  \<open>result\<close> is never assigned, and \<open>return result\<close> raises \<open>UnboundLocalError\<close>:
  neither a verdict nor a deliberate configuration error.
\<close>

theorem run_many_arguments_empty_targets:
  "run_many_arguments h e w cmd [] marker =
     (Inl (UnboundLocalError
        ''cannot access local variable 'result' where it is not associated with a value''),
      e, w)"
  by (simp add: run_many_arguments_def)

section \<open>Properties of the version check\<close>

text \<open>
  The check compares major with major and minor with minor, each on its own.
\<close>

lemma min_python_version_None_iff:
  "min_python_version e v = None \<longleftrightarrow> MAJOR e \<le> major v \<and> MINOR e \<le> minor v"
  by (auto simp: min_python_version_def Let_def)

lemma digits_3: "digits 3 = [51]" by (simp add: digits.simps)
lemma digits_10: "digits 10 = [49, 48]" by (simp add: digits.simps [of 10] digits.simps [of "Suc 0"])

text \<open>
  Claim C9. A host at version 4.0 satisfies the required minimum 3.10, yet the check
  returns the message for it, because the minor number 0 is below 10.
\<close>

theorem min_python_version_rejects_4_0:
  "min_python_version Environment_init \<lparr>major = 4, minor = 0\<rparr>
     = Some (lit ''Minimum required Python version is 3.10'')"
  by (simp add: min_python_version_def Environment_init_def py_str_int_def digits_3 digits_10 lit_def)

text \<open>The scenario of the claim, on hosts of major version 3, holds.\<close>

lemma min_python_version_scenario:
  "min_python_version Environment_init \<lparr>major = 3, minor = 9\<rparr>
     = Some (lit ''Minimum required Python version is 3.10'')
   \<and> min_python_version Environment_init \<lparr>major = 3, minor = 10\<rparr> = None
   \<and> min_python_version Environment_init \<lparr>major = 3, minor = 11\<rparr> = None"
  by (simp add: min_python_version_def Environment_init_def py_str_int_def digits_3 digits_10 lit_def)

end
